theory Spec2Isabelle
  imports Complex_Main "HOL-Library.Word" "HOL-Library.Sublist"
begin

unbundle bit_operations_syntax

section \<open>Machine types and the C library\<close>

text \<open>
  A C \<open>int\<close> is a 32-bit word read in two's complement; a \<open>byte\<close> is an unsigned
  8-bit word. A C string is the list of its characters before the terminating NUL; a
  pointer into a string is the suffix it points at, and a null pointer is \<open>None\<close>.
  A C \<open>float\<close> is modelled by a real number: rounding is not part of the model.
\<close>

type_synonym cint = "32 word"
type_synonym byte = "8 word"

definition ord :: "char \<Rightarrow> int" where
  "ord c = of_char c"

definition isdigit :: "char \<Rightarrow> bool" where
  "isdigit c = (48 \<le> ord c \<and> ord c \<le> 57)"

definition isxdigit :: "char \<Rightarrow> bool" where
  "isxdigit c = (isdigit c \<or> (97 \<le> ord c \<and> ord c \<le> 102) \<or> (65 \<le> ord c \<and> ord c \<le> 70))"

definition tolower :: "char \<Rightarrow> int" where
  "tolower c = (if 65 \<le> ord c \<and> ord c \<le> 90 then ord c + 32 else ord c)"

text \<open>\<open>strrchr s c\<close>: the suffix of \<open>s\<close> that starts at the last \<open>c\<close>, if there is one.\<close>

fun strrchr :: "string \<Rightarrow> char \<Rightarrow> string option" where
  "strrchr [] c = None"
| "strrchr (x # xs) c =
     (case strrchr xs c of
        Some r \<Rightarrow> Some r
      | None \<Rightarrow> if x = c then Some (x # xs) else None)"

text \<open>\<open>strstr h n\<close> as a test: does \<open>n\<close> occur in \<open>h\<close>?\<close>

fun strstr :: "string \<Rightarrow> string \<Rightarrow> bool" where
  "strstr [] n = (n = [])"
| "strstr (x # xs) n = (if prefix n (x # xs) then True else strstr xs n)"

section \<open>Font resources\<close>

record xps_part =
  part_name :: string
  part_data :: "byte list"

text \<open>
  A store outside an array is undefined behaviour in C. The model makes it a value:
  \<open>Data_overrun i\<close> is a store at offset \<open>i\<close> of a part's data that has no such
  byte, \<open>Scratch_overrun i\<close> a store at offset \<open>i\<close> of a scratch buffer that is
  shorter.
\<close>

datatype xps_fault = Data_overrun nat | Scratch_overrun nat

subsection \<open>xps\_deobfuscate\_font\_resource\<close>

definition unhex :: "char \<Rightarrow> int" where
  "unhex i = (if isdigit i then ord i - 48 else tolower i - 97 + 10)"

text \<open>
  The scan of the part name: \<open>for (i = 0; i < 32 && *p; p++) if (isxdigit(*p)) buf[i++] = *p\<close>.
  The result is \<open>buf\<close> up to \<open>i\<close>.
\<close>

fun guid_scan :: "nat \<Rightarrow> string \<Rightarrow> string" where
  "guid_scan i [] = []"
| "guid_scan i (c # p) =
     (if i < 32 then (if isxdigit c then c # guid_scan (Suc i) p else guid_scan i p) else [])"

definition guid_key :: "string \<Rightarrow> byte list" where
  "guid_key buf = map (\<lambda>i. word_of_int (unhex (buf ! (i * 2 + 0)) * 16 + unhex (buf ! (i * 2 + 1)))) [0..<16]"

definition xor_at :: "byte list \<Rightarrow> nat \<Rightarrow> byte \<Rightarrow> xps_fault + byte list" where
  "xor_at d i k = (if i < length d then Inr (d[i := d ! i XOR k]) else Inl (Data_overrun i))"

function xor_loop :: "byte list \<Rightarrow> nat \<Rightarrow> byte list \<Rightarrow> xps_fault + byte list" where
  "xor_loop key i d =
     (if i < 16 then
        (case xor_at d i (key ! (15 - i)) of
           Inl e \<Rightarrow> Inl e
         | Inr d1 \<Rightarrow>
             (case xor_at d1 (i + 16) (key ! (15 - i)) of
                Inl e \<Rightarrow> Inl e
              | Inr d2 \<Rightarrow> xor_loop key (Suc i) d2))
      else Inr d)"
  by pat_completeness auto
termination
  by (relation "measure (\<lambda>(key, i, d). 16 - i)") auto

text \<open>
  The result is the warnings printed and the part as the call leaves it.
\<close>

definition xps_deobfuscate_font_resource :: "xps_part \<Rightarrow> xps_fault + (string list \<times> xps_part)" where
  "xps_deobfuscate_font_resource part =
     (let p = (case strrchr (part_name part) (CHR ''/'') of None \<Rightarrow> part_name part | Some q \<Rightarrow> q);
          buf = guid_scan 0 p
      in if length buf \<noteq> 32
         then Inr ([''cannot extract GUID from obfuscated font part name''], part)
         else (case xor_loop (guid_key buf) 0 (part_data part) of
                 Inl e \<Rightarrow> Inl e
               | Inr d \<Rightarrow> Inr ([], part\<lparr>part_data := d\<rparr>)))"

text \<open>
  The loader's step "deobfuscate if necessary" in \<open>xps_parse_glyphs\<close>: two tests of the
  part name, each followed by a call.
\<close>

definition deobfuscate_if_necessary :: "xps_part \<Rightarrow> xps_fault + (string list \<times> xps_part)" where
  "deobfuscate_if_necessary part =
     (case (if strstr (part_name part) ''.odttf'' then xps_deobfuscate_font_resource part
            else Inr ([], part)) of
        Inl e \<Rightarrow> Inl e
      | Inr (w1, part1) \<Rightarrow>
          (if strstr (part_name part1) ''.ODTTF''
           then (case xps_deobfuscate_font_resource part1 of
                   Inl e \<Rightarrow> Inl e
                 | Inr (w2, part2) \<Rightarrow> Inr (w1 @ w2, part2))
           else Inr (w1, part1)))"

text \<open>The vocabulary of the specification.\<close>

definition final_segment :: "string \<Rightarrow> string" where
  "final_segment s = rev (takeWhile (\<lambda>c. c \<noteq> CHR ''/'') (rev s))"

definition hex_digits :: "string \<Rightarrow> string" where
  "hex_digits s = filter (\<lambda>c. c \<in> set ''0123456789abcdefABCDEF'') s"

definition hex_value :: "char \<Rightarrow> nat" where
  "hex_value c =
     (case map_of (zip ''0123456789abcdefABCDEF'' ([0..<16] @ [10..<16])) c of
        Some v \<Rightarrow> v
      | None \<Rightarrow> 0)"

definition key_byte :: "string \<Rightarrow> nat \<Rightarrow> byte" where
  "key_byte h j = word_of_nat (16 * hex_value (h ! (2 * j)) + hex_value (h ! (2 * j + 1)))"

definition ends_with_nocase :: "string \<Rightarrow> string \<Rightarrow> bool" where
  "ends_with_nocase s ext = suffix (map tolower ext) (map tolower s)"


section \<open>Encoding selection\<close>

text \<open>
  What \<open>xps_select_best_font_encoding\<close> sees of a font: \<open>cmaps\<close> lists the
  (platform id, encoding id) pairs of its encoding subtables, entry \<open>i\<close> being what
  \<open>xps_identify_font_encoding\<close> reports for index \<open>i\<close> and the length what
  \<open>xps_count_font_encodings\<close> returns; \<open>charmap\<close> is the index last passed to
  \<open>xps_select_font_encoding\<close>, if any.
\<close>

record fz_font =
  cmaps :: "(cint \<times> cint) list"
  charmap :: "nat option"

definition xps_cmap_list :: "(cint \<times> cint) list" where
  "xps_cmap_list =
     [(3, 10), (3, 1), (3, 5), (3, 4), (3, 3), (3, 2), (3, 0), (1, 0), (- 1, - 1)]"

function find_cmap :: "(cint \<times> cint) list \<Rightarrow> cint \<times> cint \<Rightarrow> nat \<Rightarrow> nat option" where
  "find_cmap encs e i =
     (if i < length encs then
        (if fst (encs ! i) = fst e \<and> snd (encs ! i) = snd e then Some i
         else find_cmap encs e (Suc i))
      else None)"
  by pat_completeness auto
termination
  by (relation "measure (\<lambda>(encs, e, i). length encs - i)") auto

text \<open>
  The outer loop walks the table up to the entry whose platform id is \<open>-1\<close>. The table
  is a constant that ends in that entry, so the first equation is never reached from
  \<open>xps_select_best_font_encoding\<close>.
\<close>

fun select_loop :: "fz_font \<Rightarrow> (cint \<times> cint) list \<Rightarrow> string list \<times> fz_font" where
  "select_loop font [] = ([''could not find a suitable cmap''], font)"
| "select_loop font (e # es) =
     (if fst e = - 1 then ([''could not find a suitable cmap''], font)
      else (case find_cmap (cmaps font) e 0 of
              Some i \<Rightarrow> ([], font\<lparr>charmap := Some i\<rparr>)
            | None \<Rightarrow> select_loop font es))"

definition xps_select_best_font_encoding :: "fz_font \<Rightarrow> string list \<times> fz_font" where
  "xps_select_best_font_encoding font = select_loop font xps_cmap_list"

text \<open>The priority list as the specification gives it, and the pair a font has selected.\<close>

definition cmap_priority :: "(cint \<times> cint) list" where
  "cmap_priority = [(3, 10), (3, 1), (3, 5), (3, 4), (3, 3), (3, 2), (3, 0), (1, 0)]"

definition selected_pair :: "fz_font \<Rightarrow> (cint \<times> cint) option" where
  "selected_pair font = map_option (\<lambda>i. cmaps font ! i) (charmap font)"

section \<open>The Indices tokenizer\<close>

definition starts :: "char \<Rightarrow> string \<Rightarrow> bool" where
  "starts c s = (case s of [] \<Rightarrow> False | x # _ \<Rightarrow> x = c)"

definition nonempty :: "string option \<Rightarrow> bool" where
  "nonempty p = (case p of None \<Rightarrow> False | Some s \<Rightarrow> s \<noteq> [])"

text \<open>
  \<open>xps_parse_digits\<close>: \<open>*digit = *digit * 10 + (*s - '0')\<close> on a 32-bit \<open>int\<close>; a
  value too large for it wraps around.
\<close>

fun parse_digits_loop :: "string \<Rightarrow> cint \<Rightarrow> string \<times> cint" where
  "parse_digits_loop [] digit = ([], digit)"
| "parse_digits_loop (c # s) digit =
     (if 48 \<le> ord c \<and> ord c \<le> 57
      then parse_digits_loop s (digit * 10 + (word_of_int (ord c) - 48))
      else (c # s, digit))"

definition xps_parse_digits :: "string \<Rightarrow> string \<times> cint" where
  "xps_parse_digits s = parse_digits_loop s 0"

definition is_real_num_char :: "char \<Rightarrow> bool" where
  "is_real_num_char c =
     ((48 \<le> ord c \<and> ord c \<le> 57) \<or> c = CHR ''e'' \<or> c = CHR ''E'' \<or>
      c = CHR ''+'' \<or> c = CHR ''-'' \<or> c = CHR ''.'')"

text \<open>
  \<open>char buf[64]\<close>. The copy loop \<open>while (is_real_num_char(*s)) *p++ = *s++\<close> carries
  the characters stored so far; \<open>p\<close> is at offset \<open>length buf\<close>. A store at an offset
  that is not below \<open>scratch_size\<close> is outside the array.
\<close>

definition scratch_size :: nat where
  "scratch_size = 64"

fun copy_real_num :: "string \<Rightarrow> string \<Rightarrow> xps_fault + (string \<times> string)" where
  "copy_real_num [] buf = Inr ([], buf)"
| "copy_real_num (c # s) buf =
     (if is_real_num_char c
      then (if length buf < scratch_size then copy_real_num s (buf @ [c])
            else Inl (Scratch_overrun (length buf)))
      else Inr (c # s, buf))"

text \<open>
  After the loop \<open>*p = 0\<close> is one more store. \<open>atof\<close> is the C library's; it is a
  parameter of the model.
\<close>

definition xps_parse_real_num :: "(string \<Rightarrow> real) \<Rightarrow> string \<Rightarrow> real \<Rightarrow> xps_fault + (string \<times> real)" where
  "xps_parse_real_num atof s number =
     (case copy_real_num s [] of
        Inl e \<Rightarrow> Inl e
      | Inr (s', buf) \<Rightarrow>
          (if length buf < scratch_size
           then Inr (s', if buf \<noteq> [] then atof buf else number)
           else Inl (Scratch_overrun (length buf))))"

definition xps_parse_cluster_mapping :: "string \<Rightarrow> cint \<Rightarrow> cint \<Rightarrow> string \<times> cint \<times> cint" where
  "xps_parse_cluster_mapping s code_count glyph_count =
     (let (s1, code_count1) =
            (if starts (CHR ''('') s then xps_parse_digits (tl s) else (s, code_count));
          (s2, glyph_count1) =
            (if starts (CHR '':'') s1 then xps_parse_digits (tl s1) else (s1, glyph_count));
          s3 = (if starts (CHR '')'') s2 then tl s2 else s2)
      in (s3, code_count1, glyph_count1))"

definition xps_parse_glyph_index :: "string \<Rightarrow> cint \<Rightarrow> string \<times> cint" where
  "xps_parse_glyph_index s glyph_index =
     (case s of
        [] \<Rightarrow> (s, glyph_index)
      | c # _ \<Rightarrow> if 48 \<le> ord c \<and> ord c \<le> 57 then xps_parse_digits s else (s, glyph_index))"

definition xps_parse_glyph_metrics ::
  "(string \<Rightarrow> real) \<Rightarrow> string \<Rightarrow> real \<Rightarrow> real \<Rightarrow> real \<Rightarrow> xps_fault + (string \<times> real \<times> real \<times> real)" where
  "xps_parse_glyph_metrics atof s advance uofs vofs =
     (case (if starts (CHR '','') s then xps_parse_real_num atof (tl s) advance
            else Inr (s, advance)) of
        Inl e \<Rightarrow> Inl e
      | Inr (s1, advance1) \<Rightarrow>
          (case (if starts (CHR '','') s1 then xps_parse_real_num atof (tl s1) uofs
                 else Inr (s1, uofs)) of
             Inl e \<Rightarrow> Inl e
           | Inr (s2, uofs1) \<Rightarrow>
               (case (if starts (CHR '','') s2 then xps_parse_real_num atof (tl s2) vofs
                      else Inr (s2, vofs)) of
                  Inl e \<Rightarrow> Inl e
                | Inr (s3, vofs1) \<Rightarrow> Inr (s3, advance1, uofs1, vofs1))))"

section \<open>Glyph layout\<close>

record xps_glyph_metrics =
  hadv :: real
  vadv :: real
  vorg :: real

text \<open>One call of \<open>fz_addtext (text, gid, ucs, e, f)\<close>.\<close>

record fz_textel =
  te_gid :: cint
  te_ucs :: cint
  te_e :: real
  te_f :: real

text \<open>
  The functions the glyph loop calls and this file does not define, for the font of the
  call: \<open>xps_utf8_to_ucs (&char_code, us, un)\<close> gives the code point it stores and the
  number of bytes it returns; \<open>xps_encode_font_char\<close> maps a character code to a glyph
  index; \<open>xps_measure_font_glyph\<close> gives the metrics of a glyph.
\<close>

record xps_lib =
  xps_utf8_to_ucs :: "string \<Rightarrow> int \<Rightarrow> cint \<times> nat"
  lib_atof :: "string \<Rightarrow> real"
  xps_encode_font_char :: "cint \<Rightarrow> cint"
  xps_measure_font_glyph :: "cint \<Rightarrow> xps_glyph_metrics"

text \<open>The matrix \<open>tm\<close> is kept as the expression that builds it.\<close>

datatype fz_matrix = Fz_scale real real | Fz_rotate real | Fz_concat fz_matrix fz_matrix

record fz_text =
  text_trm :: fz_matrix
  text_wmode :: bool
  text_els :: "fz_textel list"

text \<open>The variables of \<open>xps_parse_glyphs_imp\<close> that its loop changes.\<close>

record xps_cursor =
  cur_us :: "string option"
  cur_un :: int
  cur_is :: "string option"
  cur_x :: real
  cur_text :: "fz_textel list"

text \<open>
  Lines 211 to 222: the counts of one cluster, read from \<open>is\<close> when it is not at its
  end, then raised to 1.
\<close>

definition cluster_counts :: "string option \<Rightarrow> string option \<times> cint \<times> cint" where
  "cluster_counts is =
     (let code_count = 1; glyph_count = 1;
          (is1, code_count1, glyph_count1) =
            (case is of
               None \<Rightarrow> (is, code_count, glyph_count)
             | Some s \<Rightarrow>
                 if s \<noteq> [] then
                   (let (s', c, g) = xps_parse_cluster_mapping s code_count glyph_count
                    in (Some s', c, g))
                 else (is, code_count, glyph_count));
          code_count2 = (if code_count1 <s 1 then 1 else code_count1);
          glyph_count2 = (if glyph_count1 <s 1 then 1 else glyph_count1)
      in (is1, code_count2, glyph_count2))"

text \<open>
  \<open>while (code_count--)\<close>: the count is at least 1 when the loop starts, so the body
  runs that many times; the loop is given the count as a natural number.
\<close>

fun code_loop :: "xps_lib \<Rightarrow> nat \<Rightarrow> cint \<times> string option \<times> int \<Rightarrow> cint \<times> string option \<times> int" where
  "code_loop lib 0 st = st"
| "code_loop lib (Suc n) (char_code, us, un) =
     (case us of
        None \<Rightarrow> code_loop lib n (char_code, us, un)
      | Some u \<Rightarrow>
          if un > 0 then
            (let (c, t) = xps_utf8_to_ucs lib u un
             in code_loop lib n (c, Some (drop t u), un - int t))
          else code_loop lib n (char_code, us, un))"

text \<open>
  Lines 237 to 261: what one glyph mapping of \<open>is\<close> gives, before placement: the rest
  of \<open>is\<close>, the glyph index, its metrics, the advance and the two offsets.
\<close>

definition glyph_token ::
  "xps_lib \<Rightarrow> bool \<Rightarrow> cint \<Rightarrow> cint \<Rightarrow> string option \<Rightarrow>
     xps_fault + (string option \<times> cint \<times> xps_glyph_metrics \<times> real \<times> real \<times> real)" where
  "glyph_token lib is_sideways bidi_level char_code is =
     (let glyph_index = - 1; u_offset = 0; v_offset = 0;
          (is1, glyph_index1) =
            (case is of
               None \<Rightarrow> (is, glyph_index)
             | Some s \<Rightarrow>
                 if s \<noteq> [] then (let (s', g) = xps_parse_glyph_index s glyph_index in (Some s', g))
                 else (is, glyph_index));
          glyph_index2 =
            (if glyph_index1 = - 1 then xps_encode_font_char lib char_code else glyph_index1);
          mtx = xps_measure_font_glyph lib glyph_index2;
          advance =
            (if is_sideways then vadv mtx * 100
             else if bidi_level AND 1 \<noteq> 0 then - hadv mtx * 100
             else hadv mtx * 100)
      in (case is1 of
            None \<Rightarrow> Inr (is1, glyph_index2, mtx, advance, u_offset, v_offset)
          | Some s \<Rightarrow>
              if s \<noteq> [] then
                (case xps_parse_glyph_metrics (lib_atof lib) s advance u_offset v_offset of
                   Inl e \<Rightarrow> Inl e
                 | Inr (s', advance1, u_offset1, v_offset1) \<Rightarrow>
                     Inr (Some (if starts (CHR '';'') s' then tl s' else s'),
                          glyph_index2, mtx, advance1, u_offset1, v_offset1))
              else Inr (is1, glyph_index2, mtx, advance, u_offset, v_offset)))"

text \<open>
  Lines 263 to 282: the glyph added to the text and the pen's new \<open>x\<close>.
\<close>

definition place_glyph ::
  "real \<Rightarrow> real \<Rightarrow> bool \<Rightarrow> cint \<Rightarrow> cint \<Rightarrow> real \<Rightarrow>
     cint \<times> xps_glyph_metrics \<times> real \<times> real \<times> real \<Rightarrow> fz_textel \<times> real" where
  "place_glyph fsize y is_sideways bidi_level char_code x tok =
     (case tok of (glyph_index, mtx, advance, u_offset, v_offset) \<Rightarrow>
        (let u_offset1 = (if bidi_level AND 1 \<noteq> 0 then - hadv mtx * 100 - u_offset else u_offset);
             u_offset2 = u_offset1 * 0.01 * fsize;
             v_offset2 = v_offset * 0.01 * fsize;
             (e, f) =
               (if is_sideways
                then (x + u_offset2 + (vorg mtx * fsize), y - v_offset2 + (hadv mtx * 0.5 * fsize))
                else (x + u_offset2, y - v_offset2))
         in (\<lparr>te_gid = glyph_index, te_ucs = char_code, te_e = e, te_f = f\<rparr>,
             x + advance * 0.01 * fsize)))"

text \<open>\<open>while (glyph_count--)\<close>, on the rest of \<open>is\<close>, the pen and the text.\<close>

fun glyph_loop ::
  "xps_lib \<Rightarrow> real \<Rightarrow> real \<Rightarrow> bool \<Rightarrow> cint \<Rightarrow> cint \<Rightarrow> nat \<Rightarrow>
     string option \<times> real \<times> fz_textel list \<Rightarrow> xps_fault + (string option \<times> real \<times> fz_textel list)" where
  "glyph_loop lib fsize y is_sideways bidi_level char_code 0 st = Inr st"
| "glyph_loop lib fsize y is_sideways bidi_level char_code (Suc n) (is, x, els) =
     (case glyph_token lib is_sideways bidi_level char_code is of
        Inl e \<Rightarrow> Inl e
      | Inr (is', tok) \<Rightarrow>
          (case place_glyph fsize y is_sideways bidi_level char_code x tok of
             (el, x') \<Rightarrow>
               glyph_loop lib fsize y is_sideways bidi_level char_code n (is', x', els @ [el])))"

text \<open>One turn of the outer loop, lines 210 to 283.\<close>

definition xps_cluster ::
  "xps_lib \<Rightarrow> real \<Rightarrow> real \<Rightarrow> bool \<Rightarrow> cint \<Rightarrow> xps_cursor \<Rightarrow> xps_fault + xps_cursor" where
  "xps_cluster lib fsize y is_sideways bidi_level st =
     (let char_code = 63;
          (is1, code_count, glyph_count) = cluster_counts (cur_is st);
          (char_code1, us1, un1) =
            code_loop lib (nat (sint code_count)) (char_code, cur_us st, cur_un st)
      in (case glyph_loop lib fsize y is_sideways bidi_level char_code1 (nat (sint glyph_count))
                 (is1, cur_x st, cur_text st) of
            Inl e \<Rightarrow> Inl e
          | Inr (is2, x2, els2) \<Rightarrow>
              Inr \<lparr>cur_us = us1, cur_un = un1, cur_is = is2, cur_x = x2, cur_text = els2\<rparr>))"

text \<open>
  The outer loop. It need not end: an \<open>is\<close> that stops at a character no parser takes
  keeps the loop adding glyphs. \<open>None\<close> is the loop that does not end.
\<close>

partial_function (option) text_loop ::
  "xps_lib \<Rightarrow> real \<Rightarrow> real \<Rightarrow> bool \<Rightarrow> cint \<Rightarrow> xps_cursor \<Rightarrow> (xps_fault + fz_textel list) option" where
  "text_loop lib fsize y is_sideways bidi_level st =
     (if (cur_us st \<noteq> None \<and> cur_un st > 0) \<or> nonempty (cur_is st) then
        (case xps_cluster lib fsize y is_sideways bidi_level st of
           Inl e \<Rightarrow> Some (Inl e)
         | Inr st' \<Rightarrow> text_loop lib fsize y is_sideways bidi_level st')
      else Some (Inr (cur_text st)))"

declare text_loop.simps [code]

text \<open>
  \<open>xps_parse_glyphs_imp\<close> (\<open>fsize\<close> is its \<open>size\<close>): the warnings printed and the text left in \<open>ctx->text\<close>
  (\<open>None\<close> when the call returns before \<open>fz_newtext\<close>). The parameters \<open>ctx\<close>,
  \<open>ctm\<close> and \<open>is_charpath\<close> do not enter the result.
\<close>

definition skip_braces :: "string \<Rightarrow> string" where
  "skip_braces us = (if starts (CHR ''{'') us \<and> starts (CHR ''}'') (tl us) then drop 2 us else us)"

definition xps_parse_glyphs_imp ::
  "xps_lib \<Rightarrow> real \<Rightarrow> real \<Rightarrow> real \<Rightarrow> bool \<Rightarrow> cint \<Rightarrow> string option \<Rightarrow> string option \<Rightarrow>
     (xps_fault + (string list \<times> fz_text option)) option" where
  "xps_parse_glyphs_imp lib fsize originx originy is_sideways bidi_level indices unicode =
     (if unicode = None \<and> indices = None
      then Some (Inr ([''glyphs element with neither characters nor indices''], None))
      else
        (let us = map_option skip_braces unicode;
             un = (case us of None \<Rightarrow> 0 | Some u \<Rightarrow> int (length u));
             tm = (if is_sideways then Fz_concat (Fz_scale (- fsize) fsize) (Fz_rotate 90)
                   else Fz_scale fsize (- fsize))
         in (case text_loop lib fsize originy is_sideways bidi_level
                    \<lparr>cur_us = us, cur_un = un, cur_is = indices, cur_x = originx, cur_text = []\<rparr> of
               None \<Rightarrow> None
             | Some (Inl e) \<Rightarrow> Some (Inl e)
             | Some (Inr els) \<Rightarrow>
                 Some (Inr ([], Some \<lparr>text_trm = tm, text_wmode = is_sideways, text_els = els\<rparr>)))))"

text \<open>The rest of a cluster mapping after its code count, in the grammar's terms.\<close>

definition after_code_count :: "string \<Rightarrow> string" where
  "after_code_count s = (if starts (CHR ''('') s then dropWhile isdigit (tl s) else s)"






section \<open>Example inputs\<close>

text \<open>
  Modelled from the spec: \<open>xps_utf8_to_ucs\<close> is not among the source files. The
  specification says of it "UTF-8 decoding; each code point consumes 1+ bytes, reducing
  the remaining count". \<open>utf8_decode s n\<close> reads one code point from the start of
  \<open>s\<close>, from at most \<open>n\<close> bytes; a byte that starts no complete sequence is taken
  alone, as U+FFFD. It is used to instantiate the decoder in examples only: the theorems
  hold for every decoder.
\<close>

definition utf8_cont :: "string \<Rightarrow> nat \<Rightarrow> bool" where
  "utf8_cont s i = (i < length s \<and> 128 \<le> ord (s ! i) \<and> ord (s ! i) < 192)"

definition utf8_decode :: "string \<Rightarrow> int \<Rightarrow> cint \<times> nat" where
  "utf8_decode s n =
     (case s of
        [] \<Rightarrow> (0, 1)
      | b # _ \<Rightarrow>
          if ord b < 128 then (word_of_int (ord b), 1)
          else if 192 \<le> ord b \<and> ord b < 224 \<and> 2 \<le> n \<and> utf8_cont s 1
            then (word_of_int ((ord b - 192) * 64 + (ord (s ! 1) - 128)), 2)
          else if 224 \<le> ord b \<and> ord b < 240 \<and> 3 \<le> n \<and> utf8_cont s 1 \<and> utf8_cont s 2
            then (word_of_int ((ord b - 224) * 4096 + (ord (s ! 1) - 128) * 64 + (ord (s ! 2) - 128)), 3)
          else if 240 \<le> ord b \<and> ord b < 248 \<and> 4 \<le> n \<and> utf8_cont s 1 \<and> utf8_cont s 2 \<and> utf8_cont s 3
            then (word_of_int ((ord b - 240) * 262144 + (ord (s ! 1) - 128) * 4096 +
                               (ord (s ! 2) - 128) * 64 + (ord (s ! 3) - 128)), 4)
          else (65533, 1))"

text \<open>
  A stand-in for \<open>atof\<close> in examples: the value of an optional sign and the decimal
  digits after it.
\<close>

fun digits_value :: "string \<Rightarrow> nat \<Rightarrow> nat" where
  "digits_value [] acc = acc"
| "digits_value (c # s) acc =
     (if isdigit c then digits_value s (acc * 10 + nat (ord c - 48)) else acc)"

definition atof_digits :: "string \<Rightarrow> real" where
  "atof_digits s =
     (case s of
        [] \<Rightarrow> 0
      | c # r \<Rightarrow>
          if c = CHR ''-'' then - real (digits_value r 0)
          else if c = CHR ''+'' then real (digits_value r 0)
          else real (digits_value s 0))"

text \<open>A font whose glyphs all advance by half an em, with glyph index = code - 29.\<close>

definition example_lib :: xps_lib where
  "example_lib =
     \<lparr>xps_utf8_to_ucs = utf8_decode, lib_atof = atof_digits,
      xps_encode_font_char = (\<lambda>c. c - 29),
      xps_measure_font_glyph = (\<lambda>g. \<lparr>hadv = 1 / 2, vadv = 1, vorg = 1 / 4\<rparr>)\<rparr>"

definition guid_part :: xps_part where
  "guid_part = \<lparr>part_name = ''/Fonts/00112233-4455-6677-8899-AABBCCDDEEFF.odttf'',
                 part_data = replicate 40 0\<rparr>"

definition upper_part :: xps_part where
  "upper_part = \<lparr>part_name = ''/Fonts/00112233-4455-6677-8899-AABBCCDDEEFF.ODTTF'',
                  part_data = replicate 40 0\<rparr>"

definition mixed_part :: xps_part where
  "mixed_part = \<lparr>part_name = ''/Fonts/00112233-4455-6677-8899-AABBCCDDEEFF.OdTtF'',
                  part_data = replicate 40 0\<rparr>"

definition backup_part :: xps_part where
  "backup_part = \<lparr>part_name = ''/Fonts/00112233-4455-6677-8899-AABBCCDDEEFF.odttf.bak'',
                   part_data = replicate 40 0\<rparr>"

definition tiny_part :: xps_part where
  "tiny_part = \<lparr>part_name = ''/Fonts/00112233-4455-6677-8899-AABBCCDDEEFF.odttf'',
                 part_data = replicate 10 0\<rparr>"

definition short_guid_part :: xps_part where
  "short_guid_part = \<lparr>part_name = ''/Fonts/0011-2233.odttf'', part_data = replicate 40 7\<rparr>"

definition two_cmap_font :: fz_font where
  "two_cmap_font = \<lparr>cmaps = [(1, 0), (3, 1)], charmap = None\<rparr>"

definition swapped_cmap_font :: fz_font where
  "swapped_cmap_font = \<lparr>cmaps = [(3, 1), (1, 0)], charmap = None\<rparr>"

definition no_cmap_font :: fz_font where
  "no_cmap_font = \<lparr>cmaps = [(0, 3), (2, 1)], charmap = Some 1\<rparr>"

definition plain_part :: xps_part where
  "plain_part = \<lparr>part_name = ''/Fonts/arial.ttf'', part_data = replicate 40 7\<rparr>"



section \<open>Font deobfuscation: proofs\<close>

declare xor_loop.simps [simp del]

declare find_cmap.simps [simp del]

lemma guid_scan_take: "guid_scan i p = take (32 - i) (filter isxdigit p)"
  by (induction p arbitrary: i) (auto simp: take_Cons' Suc_diff_Suc)

lemma final_segment_Cons:
  "final_segment (x # xs) =
     (if CHR ''/'' \<in> set xs then final_segment xs else if x = CHR ''/'' then xs else x # xs)"
  by (auto simp: final_segment_def takeWhile_append takeWhile_eq_all_conv)

lemma strrchr_None: "strrchr s c = None \<longleftrightarrow> c \<notin> set s"
  by (induction s) (auto split: option.splits)

lemma strrchr_slash:
  "(case strrchr s (CHR ''/'') of None \<Rightarrow> s | Some q \<Rightarrow> q) =
     (if CHR ''/'' \<in> set s then CHR ''/'' # final_segment s else final_segment s)"
proof (induction s)
  case Nil
  show ?case by (simp add: final_segment_def)
next
  case (Cons x xs)
  show ?case
  proof (cases "CHR ''/'' \<in> set xs")
    case True
    then obtain r where r: "strrchr xs (CHR ''/'') = Some r"
      using strrchr_None [of xs "CHR ''/''"] by auto
    with Cons True show ?thesis by (simp add: final_segment_Cons)
  next
    case False
    then have "strrchr xs (CHR ''/'') = None" by (simp add: strrchr_None)
    with False show ?thesis by (auto simp add: final_segment_Cons)
  qed
qed

lemma inj_ord: "ord a = ord b \<longleftrightarrow> a = b"
  unfolding ord_def by (metis char_of_char)

lemma hex_digit_codes: "map ord ''0123456789abcdefABCDEF'' = [48..57] @ [97..102] @ [65..70]"
  by code_simp

lemma isxdigit_set: "isxdigit c \<longleftrightarrow> c \<in> set ''0123456789abcdefABCDEF''"
proof -
  have "c \<in> set ''0123456789abcdefABCDEF'' \<longleftrightarrow> ord c \<in> set (map ord ''0123456789abcdefABCDEF'')"
    by (auto simp: inj_ord)
  also have "\<dots> \<longleftrightarrow> ord c \<in> set ([48..57] @ [97..102] @ [65..70])"
    by (simp only: hex_digit_codes)
  also have "\<dots> \<longleftrightarrow> ord c \<in> {48..57} \<union> {97..102} \<union> {65..70}"
    by (simp only: set_append set_upto Un_assoc)
  also have "\<dots> \<longleftrightarrow> isxdigit c"
    by (auto simp: isxdigit_def isdigit_def)
  finally show ?thesis by simp
qed

lemma filter_isxdigit: "filter isxdigit s = hex_digits s"
  unfolding hex_digits_def by (rule filter_cong) (simp_all add: isxdigit_set)

lemma unhex_table: "\<forall>c \<in> set ''0123456789abcdefABCDEF''. unhex c = int (hex_value c)"
  by code_simp

lemma xor_loop_spec:
  "i \<le> 16 \<Longrightarrow> 32 \<le> length d \<Longrightarrow>
   \<exists>d'. xor_loop key i d = Inr d' \<and> length d' = length d \<and>
     (\<forall>j<length d. d' ! j =
        (if i \<le> j \<and> j < 16 then d ! j XOR key ! (15 - j)
         else if i + 16 \<le> j \<and> j < 32 then d ! j XOR key ! (31 - j)
         else d ! j))"
proof (induction key i d rule: xor_loop.induct)
  case (1 key i d)
  show ?case
  proof (cases "i < 16")
    case False
    with "1.prems" have "i = 16" by simp
    then show ?thesis by (subst xor_loop.simps) auto
  next
    case True
    define d1 where "d1 = d[i := d ! i XOR key ! (15 - i)]"
    define d2 where "d2 = d1[i + 16 := d1 ! (i + 16) XOR key ! (15 - i)]"
    have x1: "xor_at d i (key ! (15 - i)) = Inr d1"
      using True "1.prems" by (simp add: xor_at_def d1_def)
    have x2: "xor_at d1 (i + 16) (key ! (15 - i)) = Inr d2"
      using True "1.prems" by (simp add: xor_at_def d1_def d2_def)
    have len: "length d2 = length d" by (simp add: d1_def d2_def)
    from "1.IH" [OF True x1 x2] True "1.prems" len
    obtain d' where d': "xor_loop key (Suc i) d2 = Inr d'" "length d' = length d"
      and nth: "\<forall>j<length d. d' ! j =
        (if Suc i \<le> j \<and> j < 16 then d2 ! j XOR key ! (15 - j)
         else if Suc i + 16 \<le> j \<and> j < 32 then d2 ! j XOR key ! (31 - j)
         else d2 ! j)"
      by auto
    have unfold: "xor_loop key i d = xor_loop key (Suc i) d2"
      using True x1 x2 by (subst xor_loop.simps) simp
    have "\<forall>j<length d. d' ! j =
        (if i \<le> j \<and> j < 16 then d ! j XOR key ! (15 - j)
         else if i + 16 \<le> j \<and> j < 32 then d ! j XOR key ! (31 - j)
         else d ! j)"
    proof (intro allI impI)
      fix j assume j: "j < length d"
      have a: "15 - i = 31 - (i + 16)" by simp
      from nth j have dj: "d' ! j =
        (if Suc i \<le> j \<and> j < 16 then d2 ! j XOR key ! (15 - j)
         else if Suc i + 16 \<le> j \<and> j < 32 then d2 ! j XOR key ! (31 - j)
         else d2 ! j)" by blast
      consider "j = i" | "j = i + 16" | "j \<noteq> i" "j \<noteq> i + 16" by blast
      then show "d' ! j =
        (if i \<le> j \<and> j < 16 then d ! j XOR key ! (15 - j)
         else if i + 16 \<le> j \<and> j < 32 then d ! j XOR key ! (31 - j)
         else d ! j)"
      proof cases
        case 1
        with dj j True show ?thesis by (simp add: d1_def d2_def)
      next
        case 2
        with dj j True "1.prems" show ?thesis by (simp add: d1_def d2_def)
      next
        case 3
        then have "d2 ! j = d ! j" by (simp add: d1_def d2_def)
        with dj 3 show ?thesis by (auto simp: le_Suc_eq)
      qed
    qed
    with d' unfold show ?thesis by simp
  qed
qed


lemma guid_scan_name:
  "guid_scan 0 (case strrchr s (CHR ''/'') of None \<Rightarrow> s | Some q \<Rightarrow> q) =
     take 32 (hex_digits (final_segment s))"
proof -
  have "\<not> isxdigit (CHR ''/'')" by (simp add: isxdigit_set)
  then show ?thesis
    by (simp only: strrchr_slash guid_scan_take filter_isxdigit [symmetric]) simp
qed

lemma hex_digits_nth: "k < length (hex_digits s) \<Longrightarrow> hex_digits s ! k \<in> set ''0123456789abcdefABCDEF''"
proof -
  assume "k < length (hex_digits s)"
  then have "hex_digits s ! k \<in> set (hex_digits s)" by (rule nth_mem)
  then show ?thesis unfolding hex_digits_def by (simp only: set_filter mem_Collect_eq)
qed

lemma guid_key_nth:
  assumes "32 \<le> length (hex_digits s)" "j < 16"
  shows "guid_key (take 32 (hex_digits s)) ! j = key_byte (hex_digits s) j"
proof -
  let ?h = "hex_digits s"
  have a: "2 * j < length ?h" "2 * j + 1 < length ?h" "2 * j < 32" "2 * j + 1 < 32"
    using assms by simp_all
  have u0: "unhex (?h ! (2 * j)) = int (hex_value (?h ! (2 * j)))"
    using unhex_table hex_digits_nth [OF a(1)] by blast
  have u1: "unhex (?h ! (2 * j + 1)) = int (hex_value (?h ! (2 * j + 1)))"
    using unhex_table hex_digits_nth [OF a(2)] by blast
  have "guid_key (take 32 ?h) ! j =
      word_of_int (unhex (?h ! (2 * j)) * 16 + unhex (?h ! (2 * j + 1)))"
    using assms a by (simp add: guid_key_def mult.commute)
  also have "\<dots> = key_byte ?h j"
    unfolding u0 u1 key_byte_def by simp
  finally show ?thesis .
qed

text \<open>
  On data of at least 32 bytes the call does what the specification says: with at least
  32 hexadecimal digits in the final path segment of the part name it prints no warning
  and changes only the data: byte \<open>i\<close> and byte \<open>i + 16\<close>, for \<open>i < 16\<close>, are xor-ed
  with key byte \<open>15 - i\<close>, where key byte \<open>j\<close> is sixteen times the value of digit
  \<open>2j\<close> plus the value of digit \<open>2j + 1\<close>; bytes from offset 32 on stay as they were.
\<close>

lemma deobfuscate_xor_key_full_data:
  assumes "32 \<le> length (hex_digits (final_segment (part_name part)))"
    and "32 \<le> length (part_data part)"
  shows "\<exists>d. xps_deobfuscate_font_resource part = Inr ([], part\<lparr>part_data := d\<rparr>) \<and>
           length d = length (part_data part) \<and>
           (\<forall>i<16. d ! i = part_data part ! i XOR key_byte (hex_digits (final_segment (part_name part))) (15 - i) \<and>
                   d ! (i + 16) = part_data part ! (i + 16) XOR key_byte (hex_digits (final_segment (part_name part))) (15 - i)) \<and>
           (\<forall>i. 32 \<le> i \<and> i < length d \<longrightarrow> d ! i = part_data part ! i)"
proof -
  let ?h = "hex_digits (final_segment (part_name part))"
  let ?key = "guid_key (take 32 ?h)"
  from xor_loop_spec [of 0 "part_data part" ?key] assms(2)
  obtain d where d: "xor_loop ?key 0 (part_data part) = Inr d" "length d = length (part_data part)"
    and nth: "\<forall>j<length (part_data part). d ! j =
        (if 0 \<le> j \<and> j < 16 then part_data part ! j XOR ?key ! (15 - j)
         else if 0 + 16 \<le> j \<and> j < 32 then part_data part ! j XOR ?key ! (31 - j)
         else part_data part ! j)"
    by auto
  have res: "xps_deobfuscate_font_resource part = Inr ([], part\<lparr>part_data := d\<rparr>)"
    using assms(1) d(1) by (simp add: xps_deobfuscate_font_resource_def guid_scan_name Let_def)
  have low: "\<forall>i<16. d ! i = part_data part ! i XOR key_byte ?h (15 - i) \<and>
                   d ! (i + 16) = part_data part ! (i + 16) XOR key_byte ?h (15 - i)"
  proof (intro allI impI)
    fix i :: nat assume i: "i < 16"
    have k: "?key ! (15 - i) = key_byte ?h (15 - i)"
      using assms(1) by (intro guid_key_nth) simp_all
    have "d ! i = part_data part ! i XOR ?key ! (15 - i)"
      using nth i assms(2) by simp
    moreover have "d ! (i + 16) = part_data part ! (i + 16) XOR ?key ! (31 - (i + 16))"
      using nth i assms(2) by simp
    moreover have "31 - (i + 16) = 15 - i" by simp
    ultimately show "d ! i = part_data part ! i XOR key_byte ?h (15 - i) \<and>
                   d ! (i + 16) = part_data part ! (i + 16) XOR key_byte ?h (15 - i)"
      using k by simp
  qed
  have high: "\<forall>i. 32 \<le> i \<and> i < length d \<longrightarrow> d ! i = part_data part ! i"
    using nth d(2) by simp
  from res d(2) low high show ?thesis by blast
qed

text \<open>
  C8: with fewer than 32 hexadecimal digits in the final path segment the call prints
  the warning and returns the part as it was.
\<close>

theorem deobfuscate_short_guid:
  assumes "length (hex_digits (final_segment (part_name part))) < 32"
  shows "xps_deobfuscate_font_resource part =
           Inr ([''cannot extract GUID from obfuscated font part name''], part)"
  using assms by (simp add: xps_deobfuscate_font_resource_def guid_scan_name Let_def)

lemma deobfuscate_xor_key_full_data_example:
  "32 \<le> length (hex_digits (final_segment (part_name guid_part))) \<and>
   32 \<le> length (part_data guid_part) \<and>
   (\<exists>d. xps_deobfuscate_font_resource guid_part = Inr ([], guid_part\<lparr>part_data := d\<rparr>) \<and>
        length d = length (part_data guid_part) \<and>
        (\<forall>i<16. d ! i = part_data guid_part ! i XOR
                      key_byte (hex_digits (final_segment (part_name guid_part))) (15 - i) \<and>
                d ! (i + 16) = part_data guid_part ! (i + 16) XOR
                      key_byte (hex_digits (final_segment (part_name guid_part))) (15 - i)) \<and>
        (\<forall>i. 32 \<le> i \<and> i < length d \<longrightarrow> d ! i = part_data guid_part ! i))"
proof -
  have h1: "32 \<le> length (hex_digits (final_segment (part_name guid_part)))"
    by code_simp
  have h2: "32 \<le> length (part_data guid_part)"
    by code_simp
  from deobfuscate_xor_key_full_data [OF h1 h2] h1 h2 show ?thesis by blast
qed

lemma deobfuscate_guid_part:
  "xps_deobfuscate_font_resource guid_part =
     Inr ([], guid_part\<lparr>part_data :=
       [255, 238, 221, 204, 187, 170, 153, 136, 119, 102, 85, 68, 51, 34, 17, 0,
        255, 238, 221, 204, 187, 170, 153, 136, 119, 102, 85, 68, 51, 34, 17, 0,
        0, 0, 0, 0, 0, 0, 0, 0]\<rparr>)"
  by code_simp

text \<open>
  The loop does not look at the size of the data: on a part of 10 bytes the first store
  to the second half, at offset 16, is outside the data.
\<close>

lemma deobfuscate_tiny_part: "xps_deobfuscate_font_resource tiny_part = Inl (Data_overrun 16)"
  by code_simp

lemma xor_at_Inr: "xor_at d i k = Inr d' \<Longrightarrow> i < length d \<and> length d' = length d"
  by (auto simp: xor_at_def split: if_splits)

lemma xor_at_Inl: "xor_at d i k = Inl e \<Longrightarrow> e = Data_overrun i \<and> length d \<le> i"
  by (auto simp: xor_at_def split: if_splits)

lemma xor_loop_Inr_length:
  "xor_loop key i d = Inr d' \<Longrightarrow> i < 16 \<Longrightarrow> 32 \<le> length d"
proof (induction key i d rule: xor_loop.induct)
  case (1 key i d)
  from "1.prems" obtain d1 d2 where
    x1: "xor_at d i (key ! (15 - i)) = Inr d1"
    and x2: "xor_at d1 (i + 16) (key ! (15 - i)) = Inr d2"
    and rest: "xor_loop key (Suc i) d2 = Inr d'"
    by (subst (asm) xor_loop.simps) (auto split: sum.splits)
  from xor_at_Inr [OF x1] xor_at_Inr [OF x2]
  have len: "length d2 = length d" and i16: "i + 16 < length d" by simp_all
  show ?case
  proof (cases "Suc i < 16")
    case True
    from "1.IH" [OF "1.prems"(2) x1 x2 rest True] len show ?thesis by simp
  next
    case False
    with "1.prems"(2) have "i = 15" by simp
    with i16 show ?thesis by simp
  qed
qed

lemma xor_loop_Inl:
  "xor_loop key i d = Inl e \<Longrightarrow> \<exists>k. e = Data_overrun k \<and> length d \<le> k"
proof (induction key i d rule: xor_loop.induct)
  case (1 key i d)
  show ?case
  proof (cases "i < 16")
    case False
    with "1.prems" show ?thesis by (subst (asm) xor_loop.simps) simp
  next
    case True
    show ?thesis
    proof (cases "xor_at d i (key ! (15 - i))")
      case (Inl e1)
      with "1.prems" True have "e = e1" by (subst (asm) xor_loop.simps) simp
      with xor_at_Inl [OF Inl] show ?thesis by blast
    next
      case (Inr d1)
      show ?thesis
      proof (cases "xor_at d1 (i + 16) (key ! (15 - i))")
        case (Inl e2)
        with "1.prems" True Inr have "e = e2" by (subst (asm) xor_loop.simps) simp
        with xor_at_Inl [OF Inl] xor_at_Inr [OF Inr] show ?thesis by auto
      next
        case r2: (Inr d2)
        with "1.prems" True Inr have "xor_loop key (Suc i) d2 = Inl e"
          by (subst (asm) xor_loop.simps) simp
        from "1.IH" [OF True Inr r2 this] xor_at_Inr [OF Inr] xor_at_Inr [OF r2]
        show ?thesis by auto
      qed
    qed
  qed
qed

text \<open>
  C2: the call never looks at the size of the data. For a part whose name has at least
  32 hexadecimal digits in its final path segment and whose data is shorter than 32
  bytes, the xor loop does not stay inside the data: the call ends in a store at an
  offset at or past the end of the data, so it is not true of every such part that
  only its first 32 bytes change.
\<close>

theorem deobfuscate_data_overrun:
  assumes "32 \<le> length (hex_digits (final_segment (part_name part)))"
    and "length (part_data part) < 32"
  shows "\<exists>k. xps_deobfuscate_font_resource part = Inl (Data_overrun k) \<and>
             length (part_data part) \<le> k"
proof -
  let ?key = "guid_key (take 32 (hex_digits (final_segment (part_name part))))"
  have "\<exists>e. xor_loop ?key 0 (part_data part) = Inl e"
  proof (cases "xor_loop ?key 0 (part_data part)")
    case (Inl e)
    then show ?thesis by blast
  next
    case (Inr d')
    from xor_loop_Inr_length [OF Inr] assms(2) show ?thesis by simp
  qed
  then obtain e where e: "xor_loop ?key 0 (part_data part) = Inl e" by blast
  from xor_loop_Inl [OF e] obtain k where k: "e = Data_overrun k" "length (part_data part) \<le> k"
    by blast
  from assms(1) e k show ?thesis
    by (simp add: xps_deobfuscate_font_resource_def guid_scan_name Let_def)
qed

theorem deobfuscate_data_overrun_witness:
  "32 \<le> length (hex_digits (final_segment (part_name tiny_part))) \<and>
   length (part_data tiny_part) < 32 \<and>
   xps_deobfuscate_font_resource tiny_part = Inl (Data_overrun 16) \<and>
   (\<exists>k. xps_deobfuscate_font_resource tiny_part = Inl (Data_overrun k) \<and>
        length (part_data tiny_part) \<le> k)"
proof -
  have h1: "32 \<le> length (hex_digits (final_segment (part_name tiny_part)))"
    by code_simp
  have h2: "length (part_data tiny_part) < 32"
    by code_simp
  from deobfuscate_data_overrun [OF h1 h2] h1 h2 deobfuscate_tiny_part
  show ?thesis by (intro conjI)
qed

theorem deobfuscate_short_guid_witness:
  "length (hex_digits (final_segment (part_name short_guid_part))) < 32 \<and>
   xps_deobfuscate_font_resource short_guid_part =
     Inr ([''cannot extract GUID from obfuscated font part name''], short_guid_part)"
proof -
  have h: "length (hex_digits (final_segment (part_name short_guid_part))) < 32"
    by code_simp
  from deobfuscate_short_guid [OF h] h show ?thesis by blast
qed

lemma strstr_sublist: "strstr h n \<longleftrightarrow> sublist n h"
  by (induction h) (auto simp: sublist_Cons_right)

lemma deobfuscate_name:
  "xps_deobfuscate_font_resource part = Inr (w, part') \<Longrightarrow> part_name part' = part_name part"
  by (auto simp: xps_deobfuscate_font_resource_def Let_def split: if_splits sum.splits)

text \<open>
  C4, as amended: a part whose name contains neither \<open>.odttf\<close> nor \<open>.ODTTF\<close> is left
  as it is, and a part whose name contains exactly one of the two spellings, anywhere in
  the name, is deobfuscated once.
\<close>

theorem deobfuscate_if_necessary_spellings:
  "(\<not> sublist ''.odttf'' (part_name part) \<and> \<not> sublist ''.ODTTF'' (part_name part) \<longrightarrow>
      deobfuscate_if_necessary part = Inr ([], part)) \<and>
   (sublist ''.odttf'' (part_name part) \<and> \<not> sublist ''.ODTTF'' (part_name part) \<longrightarrow>
      deobfuscate_if_necessary part = xps_deobfuscate_font_resource part) \<and>
   (\<not> sublist ''.odttf'' (part_name part) \<and> sublist ''.ODTTF'' (part_name part) \<longrightarrow>
      deobfuscate_if_necessary part = xps_deobfuscate_font_resource part)"
proof (intro conjI impI)
  assume "\<not> sublist ''.odttf'' (part_name part) \<and> \<not> sublist ''.ODTTF'' (part_name part)"
  then show "deobfuscate_if_necessary part = Inr ([], part)"
    by (simp add: deobfuscate_if_necessary_def strstr_sublist)
next
  assume a: "sublist ''.odttf'' (part_name part) \<and> \<not> sublist ''.ODTTF'' (part_name part)"
  show "deobfuscate_if_necessary part = xps_deobfuscate_font_resource part"
  proof (cases "xps_deobfuscate_font_resource part")
    case (Inl e)
    with a show ?thesis by (simp add: deobfuscate_if_necessary_def strstr_sublist)
  next
    case (Inr r)
    obtain w p' where r: "r = (w, p')" by (cases r)
    with Inr have "part_name p' = part_name part" by (simp add: deobfuscate_name)
    with a Inr r show ?thesis by (simp add: deobfuscate_if_necessary_def strstr_sublist)
  qed
next
  assume a: "\<not> sublist ''.odttf'' (part_name part) \<and> sublist ''.ODTTF'' (part_name part)"
  then show "deobfuscate_if_necessary part = xps_deobfuscate_font_resource part"
    by (cases "xps_deobfuscate_font_resource part")
       (auto simp: deobfuscate_if_necessary_def strstr_sublist)
qed

theorem deobfuscate_if_necessary_spellings_witness:
  "\<not> sublist ''.odttf'' (part_name plain_part) \<and> \<not> sublist ''.ODTTF'' (part_name plain_part) \<and>
   deobfuscate_if_necessary plain_part = Inr ([], plain_part) \<and>
   sublist ''.odttf'' (part_name backup_part) \<and> \<not> sublist ''.ODTTF'' (part_name backup_part) \<and>
   deobfuscate_if_necessary backup_part = xps_deobfuscate_font_resource backup_part \<and>
   \<not> sublist ''.odttf'' (part_name upper_part) \<and> sublist ''.ODTTF'' (part_name upper_part) \<and>
   deobfuscate_if_necessary upper_part = xps_deobfuscate_font_resource upper_part"
proof -
  have a: "\<not> sublist ''.odttf'' (part_name plain_part)" "\<not> sublist ''.ODTTF'' (part_name plain_part)"
    by code_simp+
  have b: "sublist ''.odttf'' (part_name backup_part)" "\<not> sublist ''.ODTTF'' (part_name backup_part)"
    by code_simp+
  have c: "\<not> sublist ''.odttf'' (part_name upper_part)" "sublist ''.ODTTF'' (part_name upper_part)"
    by code_simp+
  from a b c deobfuscate_if_necessary_spellings [of plain_part]
    deobfuscate_if_necessary_spellings [of backup_part]
    deobfuscate_if_necessary_spellings [of upper_part]
  show ?thesis by blast
qed

text \<open>
  C4 as the specification states it fails in both directions. The name of
  \<open>mixed_part\<close> ends in the extension in mixed case, and the loader leaves the part as
  it is although deobfuscation would change it; the name of \<open>backup_part\<close> does not end
  in the extension in any case, and the loader deobfuscates the part.
\<close>

theorem deobfuscate_if_necessary_counterexample:
  "ends_with_nocase (part_name mixed_part) ''.odttf'' \<and>
   deobfuscate_if_necessary mixed_part = Inr ([], mixed_part) \<and>
   xps_deobfuscate_font_resource mixed_part \<noteq> Inr ([], mixed_part) \<and>
   \<not> ends_with_nocase (part_name backup_part) ''.odttf'' \<and>
   deobfuscate_if_necessary backup_part = xps_deobfuscate_font_resource backup_part \<and>
   deobfuscate_if_necessary backup_part \<noteq> Inr ([], backup_part)"
proof -
  have 1: "ends_with_nocase (part_name mixed_part) ''.odttf''" by code_simp
  have 2: "deobfuscate_if_necessary mixed_part = Inr ([], mixed_part)" by code_simp
  have 3: "xps_deobfuscate_font_resource mixed_part \<noteq> Inr ([], mixed_part)" by code_simp
  have 4: "\<not> ends_with_nocase (part_name backup_part) ''.odttf''" by code_simp
  have 5: "deobfuscate_if_necessary backup_part = xps_deobfuscate_font_resource backup_part"
    by code_simp
  have 6: "deobfuscate_if_necessary backup_part \<noteq> Inr ([], backup_part)" by code_simp
  from 1 2 3 4 5 6 show ?thesis by blast
qed

section \<open>Encoding selection: proofs\<close>

lemma find_cmap_spec:
  "i \<le> length encs \<Longrightarrow>
   find_cmap encs e i =
     (if e \<in> set (drop i encs)
      then Some (i + length (takeWhile (\<lambda>q. q \<noteq> e) (drop i encs))) else None)"
proof (induction encs e i rule: find_cmap.induct)
  case (1 encs e i)
  show ?case
  proof (cases "i < length encs")
    case False
    then show ?thesis by (subst find_cmap.simps) simp
  next
    case True
    then have d: "drop i encs = encs ! i # drop (Suc i) encs"
      by (simp add: Cons_nth_drop_Suc)
    show ?thesis
    proof (cases "encs ! i = e")
      case eq: True
      then show ?thesis using True d by (subst find_cmap.simps) simp
    next
      case neq: False
      then have n: "\<not> (fst (encs ! i) = fst e \<and> snd (encs ! i) = snd e)"
        by (simp add: prod_eq_iff)
      have "find_cmap encs e i = find_cmap encs e (Suc i)"
        using True n by (subst find_cmap.simps) auto
      also have "\<dots> = (if e \<in> set (drop (Suc i) encs)
          then Some (Suc i + length (takeWhile (\<lambda>q. q \<noteq> e) (drop (Suc i) encs))) else None)"
        using "1.IH" [OF True n] True by simp
      finally show ?thesis using neq d by auto
    qed
  qed
qed

lemma select_loop_spec:
  "\<forall>p\<in>set ps. fst p \<noteq> - 1 \<Longrightarrow>
   select_loop font (ps @ (- 1, x) # rest) =
     (case List.find (\<lambda>p. p \<in> set (cmaps font)) ps of
        Some p \<Rightarrow> ([], font\<lparr>charmap := Some (length (takeWhile (\<lambda>q. q \<noteq> p) (cmaps font)))\<rparr>)
      | None \<Rightarrow> ([''could not find a suitable cmap''], font))"
proof (induction ps)
  case Nil
  show ?case by simp
next
  case (Cons p ps)
  then show ?case by (simp add: find_cmap_spec)
qed

lemma xps_cmap_list_priority: "xps_cmap_list = cmap_priority @ [(- 1, - 1)]"
  by (simp add: xps_cmap_list_def cmap_priority_def)

lemma priority_no_sentinel: "\<forall>p\<in>set cmap_priority. fst p \<noteq> - 1"
  by (simp add: cmap_priority_def)

lemma select_best_spec:
  "xps_select_best_font_encoding font =
     (case List.find (\<lambda>p. p \<in> set (cmaps font)) cmap_priority of
        Some p \<Rightarrow> ([], font\<lparr>charmap := Some (length (takeWhile (\<lambda>q. q \<noteq> p) (cmaps font)))\<rparr>)
      | None \<Rightarrow> ([''could not find a suitable cmap''], font))"
  unfolding xps_select_best_font_encoding_def xps_cmap_list_priority
  using select_loop_spec [OF priority_no_sentinel, of font "- 1" "[]"] by simp

lemma first_index:
  assumes "p \<in> set xs"
  shows "length (takeWhile (\<lambda>q. q \<noteq> p) xs) < length xs"
    and "xs ! length (takeWhile (\<lambda>q. q \<noteq> p) xs) = p"
    and "\<forall>j<length (takeWhile (\<lambda>q. q \<noteq> p) xs). xs ! j \<noteq> p"
proof -
  let ?n = "length (takeWhile (\<lambda>q. q \<noteq> p) xs)"
  from assms show lt: "?n < length xs"
    by (induction xs) auto
  from nth_length_takeWhile [OF lt] show "xs ! ?n = p" by simp
  show "\<forall>j<?n. xs ! j \<noteq> p"
  proof (intro allI impI)
    fix j assume j: "j < ?n"
    then have "takeWhile (\<lambda>q. q \<noteq> p) xs ! j \<in> set (takeWhile (\<lambda>q. q \<noteq> p) xs)"
      by (rule nth_mem)
    then have "takeWhile (\<lambda>q. q \<noteq> p) xs ! j \<noteq> p" by (auto dest: set_takeWhileD)
    with j show "xs ! j \<noteq> p" by (simp add: takeWhile_nth)
  qed
qed

text \<open>
  C5: the selector takes the first pair of the priority list that the font has, whatever
  the order in which the font lists its subtables, and selects the first subtable with
  that pair, printing nothing; a font with no pair of the list is returned unchanged
  with the warning; two fonts with the same set of pairs end with the same selected
  pair; and a font with exactly the pairs (1, 0) and (3, 1) ends with (3, 1) selected.
\<close>

theorem select_best_encoding:
  "(\<forall>p. List.find (\<lambda>p. p \<in> set (cmaps font)) cmap_priority = Some p \<longrightarrow>
      (\<exists>i. i < length (cmaps font) \<and> cmaps font ! i = p \<and> (\<forall>j<i. cmaps font ! j \<noteq> p) \<and>
           xps_select_best_font_encoding font = ([], font\<lparr>charmap := Some i\<rparr>))) \<and>
   (List.find (\<lambda>p. p \<in> set (cmaps font)) cmap_priority = None \<longrightarrow>
      xps_select_best_font_encoding font = ([''could not find a suitable cmap''], font)) \<and>
   (\<forall>font'. set (cmaps font') = set (cmaps font) \<and>
        List.find (\<lambda>p. p \<in> set (cmaps font)) cmap_priority \<noteq> None \<longrightarrow>
      selected_pair (snd (xps_select_best_font_encoding font')) =
        selected_pair (snd (xps_select_best_font_encoding font))) \<and>
   (set (cmaps font) = {(1, 0), (3, 1)} \<longrightarrow>
      selected_pair (snd (xps_select_best_font_encoding font)) = Some (3, 1))"
proof -
  have found: "\<exists>i. i < length (cmaps f) \<and> cmaps f ! i = p \<and> (\<forall>j<i. cmaps f ! j \<noteq> p) \<and>
           xps_select_best_font_encoding f = ([], f\<lparr>charmap := Some i\<rparr>)"
    if "List.find (\<lambda>p. p \<in> set (cmaps f)) cmap_priority = Some p" for f p
  proof -
    from that have "p \<in> set (cmaps f)" by (auto simp: find_Some_iff)
    from first_index [OF this] that show ?thesis
      by (intro exI [of _ "length (takeWhile (\<lambda>q. q \<noteq> p) (cmaps f))"]) (simp add: select_best_spec)
  qed
  have pair: "selected_pair (snd (xps_select_best_font_encoding f)) = Some p"
    if "List.find (\<lambda>p. p \<in> set (cmaps f)) cmap_priority = Some p" for f p
    using found [OF that] by (auto simp: selected_pair_def)
  have A: "\<forall>p. List.find (\<lambda>p. p \<in> set (cmaps font)) cmap_priority = Some p \<longrightarrow>
      (\<exists>i. i < length (cmaps font) \<and> cmaps font ! i = p \<and> (\<forall>j<i. cmaps font ! j \<noteq> p) \<and>
           xps_select_best_font_encoding font = ([], font\<lparr>charmap := Some i\<rparr>))"
    using found by blast
  have B: "List.find (\<lambda>p. p \<in> set (cmaps font)) cmap_priority = None \<longrightarrow>
      xps_select_best_font_encoding font = ([''could not find a suitable cmap''], font)"
    by (simp add: select_best_spec)
  have C: "\<forall>font'. set (cmaps font') = set (cmaps font) \<and>
        List.find (\<lambda>p. p \<in> set (cmaps font)) cmap_priority \<noteq> None \<longrightarrow>
      selected_pair (snd (xps_select_best_font_encoding font')) =
        selected_pair (snd (xps_select_best_font_encoding font))"
  proof (intro allI impI)
    fix font' :: fz_font
    assume a: "set (cmaps font') = set (cmaps font) \<and>
        List.find (\<lambda>p. p \<in> set (cmaps font)) cmap_priority \<noteq> None"
    then obtain p where p: "List.find (\<lambda>p. p \<in> set (cmaps font)) cmap_priority = Some p" by auto
    with a have p': "List.find (\<lambda>p. p \<in> set (cmaps font')) cmap_priority = Some p" by simp
    from pair [OF p] pair [OF p']
    show "selected_pair (snd (xps_select_best_font_encoding font')) =
        selected_pair (snd (xps_select_best_font_encoding font))" by simp
  qed
  have D: "set (cmaps font) = {(1, 0), (3, 1)} \<longrightarrow>
      selected_pair (snd (xps_select_best_font_encoding font)) = Some (3, 1)"
  proof
    assume s: "set (cmaps font) = {(1, 0), (3, 1)}"
    have "List.find (\<lambda>p. p \<in> set (cmaps font)) cmap_priority = Some (3, 1)"
      unfolding s by (simp add: cmap_priority_def)
    from pair [OF this] show "selected_pair (snd (xps_select_best_font_encoding font)) = Some (3, 1)" .
  qed
  from A B C D show ?thesis by blast
qed

theorem select_best_encoding_witness:
  "List.find (\<lambda>p. p \<in> set (cmaps two_cmap_font)) cmap_priority = Some (3, 1) \<and>
   (\<exists>i. i < length (cmaps two_cmap_font) \<and> cmaps two_cmap_font ! i = (3, 1) \<and>
        (\<forall>j<i. cmaps two_cmap_font ! j \<noteq> (3, 1)) \<and>
        xps_select_best_font_encoding two_cmap_font = ([], two_cmap_font\<lparr>charmap := Some i\<rparr>)) \<and>
   List.find (\<lambda>p. p \<in> set (cmaps no_cmap_font)) cmap_priority = None \<and>
   xps_select_best_font_encoding no_cmap_font = ([''could not find a suitable cmap''], no_cmap_font) \<and>
   set (cmaps swapped_cmap_font) = set (cmaps two_cmap_font) \<and>
   selected_pair (snd (xps_select_best_font_encoding swapped_cmap_font)) =
     selected_pair (snd (xps_select_best_font_encoding two_cmap_font)) \<and>
   set (cmaps two_cmap_font) = {(1, 0), (3, 1)} \<and>
   selected_pair (snd (xps_select_best_font_encoding two_cmap_font)) = Some (3, 1)"
proof -
  have f2: "List.find (\<lambda>p. p \<in> set (cmaps two_cmap_font)) cmap_priority = Some (3, 1)"
    by code_simp
  have f0: "List.find (\<lambda>p. p \<in> set (cmaps no_cmap_font)) cmap_priority = None"
    by code_simp
  have s2: "set (cmaps two_cmap_font) = {(1, 0), (3, 1)}"
    by (simp add: two_cmap_font_def)
  have sw: "set (cmaps swapped_cmap_font) = set (cmaps two_cmap_font)"
    by (auto simp: two_cmap_font_def swapped_cmap_font_def)
  note t2 = select_best_encoding [of two_cmap_font]
  note t0 = select_best_encoding [of no_cmap_font]
  from t2 f2 have a: "\<exists>i. i < length (cmaps two_cmap_font) \<and> cmaps two_cmap_font ! i = (3, 1) \<and>
        (\<forall>j<i. cmaps two_cmap_font ! j \<noteq> (3, 1)) \<and>
        xps_select_best_font_encoding two_cmap_font = ([], two_cmap_font\<lparr>charmap := Some i\<rparr>)"
    by blast
  from t0 f0 have b: "xps_select_best_font_encoding no_cmap_font =
      ([''could not find a suitable cmap''], no_cmap_font)"
    by blast
  from f2 sw have "set (cmaps swapped_cmap_font) = set (cmaps two_cmap_font) \<and>
      List.find (\<lambda>p. p \<in> set (cmaps two_cmap_font)) cmap_priority \<noteq> None"
    by simp
  with t2 have c: "selected_pair (snd (xps_select_best_font_encoding swapped_cmap_font)) =
     selected_pair (snd (xps_select_best_font_encoding two_cmap_font))"
    by blast
  from t2 s2 have d: "selected_pair (snd (xps_select_best_font_encoding two_cmap_font)) = Some (3, 1)"
    by blast
  from f2 a f0 b sw c s2 d show ?thesis by (intro conjI)
qed

section \<open>The Indices tokenizer: proofs\<close>

lemma copy_real_num_spec:
  "length buf \<le> scratch_size \<Longrightarrow>
   copy_real_num s buf =
     (if length buf + length (takeWhile is_real_num_char s) \<le> scratch_size
      then Inr (dropWhile is_real_num_char s, buf @ takeWhile is_real_num_char s)
      else Inl (Scratch_overrun scratch_size))"
proof (induction s arbitrary: buf)
  case Nil
  then show ?case by simp
next
  case (Cons c s)
  show ?case
  proof (cases "is_real_num_char c")
    case False
    with Cons.prems show ?thesis by simp
  next
    case True
    show ?thesis
    proof (cases "length buf < scratch_size")
      case lt: True
      then have "length (buf @ [c]) \<le> scratch_size" by simp
      from Cons.IH [OF this] True lt show ?thesis by simp
    next
      case False
      with Cons.prems have "length buf = scratch_size" by simp
      with True show ?thesis by simp
    qed
  qed
qed

lemma parse_real_num_spec:
  "xps_parse_real_num atof s number =
     (if length (takeWhile is_real_num_char s) < scratch_size
      then Inr (dropWhile is_real_num_char s,
                if takeWhile is_real_num_char s \<noteq> [] then atof (takeWhile is_real_num_char s)
                else number)
      else Inl (Scratch_overrun scratch_size))"
  by (simp add: xps_parse_real_num_def copy_real_num_spec)

lemma real_num_char_1: "is_real_num_char (CHR ''1'')"
  by (simp add: is_real_num_char_def ord_def)

lemma real_run: "takeWhile is_real_num_char (replicate n (CHR ''1'') ) = replicate n (CHR ''1'')"
  by (simp add: takeWhile_eq_all_conv is_real_num_char_def ord_def)

text \<open>
  C1: the copy into the 64-byte scratch buffer is not bounded. The call stores outside
  the buffer, at offset 64, exactly when the run of real-number characters at the start
  of its input has 64 characters or more; with 64 digits it is the terminating NUL that
  lands there. The Indices string made of a comma and 64 digits takes
  \<open>xps_parse_glyphs_imp\<close> to that store.
\<close>

theorem parse_real_num_overrun:
  "(xps_parse_real_num atof s number = Inl (Scratch_overrun scratch_size) \<longleftrightarrow>
      scratch_size \<le> length (takeWhile is_real_num_char s)) \<and>
   xps_parse_real_num atof (replicate 64 (CHR ''1'')) number = Inl (Scratch_overrun 64) \<and>
   xps_parse_glyphs_imp lib fsize originx originy is_sideways bidi_level
      (Some (CHR '','' # replicate 64 (CHR ''1''))) None = Some (Inl (Scratch_overrun 64))"
proof -
  have a: "xps_parse_real_num atof s number = Inl (Scratch_overrun scratch_size) \<longleftrightarrow>
      scratch_size \<le> length (takeWhile is_real_num_char s)"
    by (simp add: parse_real_num_spec)
  have b: "xps_parse_real_num f (replicate 64 (CHR ''1'')) x = Inl (Scratch_overrun 64)" for f x
    by (simp add: parse_real_num_spec real_run real_num_char_1 scratch_size_def)
  have m: "xps_parse_glyph_metrics f (CHR '','' # replicate 64 (CHR ''1'')) a u v = Inl (Scratch_overrun 64)"
    for f a u v
    by (simp add: xps_parse_glyph_metrics_def starts_def b)
  have t: "glyph_token lib is_sideways bidi_level c (Some (CHR '','' # replicate 64 (CHR ''1'')))
      = Inl (Scratch_overrun 64)" for c
    by (simp add: glyph_token_def xps_parse_glyph_index_def ord_def m Let_def)
  have cc: "cluster_counts (Some (CHR '','' # replicate 64 (CHR ''1''))) =
      (Some (CHR '','' # replicate 64 (CHR ''1'')), 1, 1)"
    by (simp add: cluster_counts_def xps_parse_cluster_mapping_def starts_def Let_def word_sless_alt)
  have cl: "xps_cluster lib fsize originy is_sideways bidi_level
      \<lparr>cur_us = None, cur_un = 0, cur_is = Some (CHR '','' # replicate 64 (CHR ''1'')),
       cur_x = originx, cur_text = []\<rparr> = Inl (Scratch_overrun 64)"
    by (simp add: xps_cluster_def cc t)
  have "text_loop lib fsize originy is_sideways bidi_level
      \<lparr>cur_us = None, cur_un = 0, cur_is = Some (CHR '','' # replicate 64 (CHR ''1'')),
       cur_x = originx, cur_text = []\<rparr> = Some (Inl (Scratch_overrun 64))"
    by (subst text_loop.simps) (simp add: cl nonempty_def)
  then have c: "xps_parse_glyphs_imp lib fsize originx originy is_sideways bidi_level
      (Some (CHR '','' # replicate 64 (CHR ''1''))) None = Some (Inl (Scratch_overrun 64))"
    by (simp add: xps_parse_glyphs_imp_def)
  from a b c show ?thesis by blast
qed

lemma parse_digits_loop_rest: "fst (parse_digits_loop s d) = dropWhile isdigit s"
  by (induction s arbitrary: d) (auto simp: isdigit_def)

lemma parse_digits_rest: "fst (xps_parse_digits s) = dropWhile isdigit s"
  by (simp add: xps_parse_digits_def parse_digits_loop_rest)

text \<open>
  C7: the two counts a cluster leaves to its loops are at least 1. Without a cluster
  mapping both are 1; the code count is 1 when no \<open>(\<close> opens the mapping and the
  glyph count is 1 when no \<open>:\<close> follows the code count; a parsed value below 1 is
  replaced by 1, and \<open>(0:0)\<close> gives the counts 1 and 1.
\<close>

theorem cluster_counts_clamped:
  "1 \<le> sint (fst (snd (cluster_counts is))) \<and> 1 \<le> sint (snd (snd (cluster_counts is))) \<and>
   (\<not> nonempty is \<longrightarrow> cluster_counts is = (is, 1, 1)) \<and>
   (\<forall>s. is = Some s \<and> s \<noteq> [] \<longrightarrow>
      (case xps_parse_cluster_mapping s 1 1 of
         (s', c, g) \<Rightarrow>
           cluster_counts is = (Some s', if sint c < 1 then 1 else c, if sint g < 1 then 1 else g)) \<and>
      (\<not> starts (CHR ''('') s \<longrightarrow> fst (snd (cluster_counts is)) = 1) \<and>
      (\<not> starts (CHR '':'') (after_code_count s) \<longrightarrow> snd (snd (cluster_counts is)) = 1)) \<and>
   cluster_counts (Some ''(0:0)'') = (Some [], 1, 1)"
proof -
  have A: "1 \<le> sint (fst (snd (cluster_counts is))) \<and> 1 \<le> sint (snd (snd (cluster_counts is)))"
    by (auto simp: cluster_counts_def Let_def word_sless_alt split: option.splits prod.splits)
  have B: "\<not> nonempty is \<longrightarrow> cluster_counts is = (is, 1, 1)"
    by (auto simp: cluster_counts_def nonempty_def Let_def word_sless_alt split: option.splits)
  have C: "\<forall>s. is = Some s \<and> s \<noteq> [] \<longrightarrow>
      (case xps_parse_cluster_mapping s 1 1 of
         (s', c, g) \<Rightarrow>
           cluster_counts is = (Some s', if sint c < 1 then 1 else c, if sint g < 1 then 1 else g)) \<and>
      (\<not> starts (CHR ''('') s \<longrightarrow> fst (snd (cluster_counts is)) = 1) \<and>
      (\<not> starts (CHR '':'') (after_code_count s) \<longrightarrow> snd (snd (cluster_counts is)) = 1)"
  proof (intro allI impI)
    fix s assume s: "is = Some s \<and> s \<noteq> []"
    have 1: "(case xps_parse_cluster_mapping s 1 1 of
         (s', c, g) \<Rightarrow>
           cluster_counts is = (Some s', if sint c < 1 then 1 else c, if sint g < 1 then 1 else g))"
      using s by (auto simp: cluster_counts_def Let_def word_sless_alt split: prod.splits)
    have 2: "\<not> starts (CHR ''('') s \<longrightarrow> fst (snd (cluster_counts is)) = 1"
      using s
      by (auto simp: cluster_counts_def xps_parse_cluster_mapping_def Let_def word_sless_alt
               split: prod.splits)
    have 3: "\<not> starts (CHR '':'') (after_code_count s) \<longrightarrow> snd (snd (cluster_counts is)) = 1"
    proof (cases "starts (CHR ''('') s")
      case True
      obtain r d where r: "xps_parse_digits (tl s) = (r, d)" by (cases "xps_parse_digits (tl s)")
      then have "r = dropWhile isdigit (tl s)" using parse_digits_rest [of "tl s"] by simp
      with True r s show ?thesis
        by (auto simp: cluster_counts_def xps_parse_cluster_mapping_def after_code_count_def
                 Let_def word_sless_alt split: prod.splits)
    next
      case False
      with s show ?thesis
        by (auto simp: cluster_counts_def xps_parse_cluster_mapping_def after_code_count_def
                 Let_def word_sless_alt split: prod.splits)
    qed
    from 1 2 3 show "(case xps_parse_cluster_mapping s 1 1 of
         (s', c, g) \<Rightarrow>
           cluster_counts is = (Some s', if sint c < 1 then 1 else c, if sint g < 1 then 1 else g)) \<and>
      (\<not> starts (CHR ''('') s \<longrightarrow> fst (snd (cluster_counts is)) = 1) \<and>
      (\<not> starts (CHR '':'') (after_code_count s) \<longrightarrow> snd (snd (cluster_counts is)) = 1)"
      by blast
  qed
  have D: "cluster_counts (Some ''(0:0)'') = (Some [], 1, 1)"
    by code_simp
  from A B C D show ?thesis by blast
qed

theorem cluster_counts_clamped_witness:
  "1 \<le> sint (fst (snd (cluster_counts (Some ''(0:3)7'')))) \<and>
   1 \<le> sint (snd (snd (cluster_counts (Some ''(0:3)7'')))) \<and>
   \<not> nonempty None \<and> cluster_counts None = (None, 1, 1) \<and>
   \<not> starts (CHR ''('') ''5,10'' \<and> fst (snd (cluster_counts (Some ''5,10''))) = 1 \<and>
   \<not> starts (CHR '':'') (after_code_count ''5,10'') \<and> snd (snd (cluster_counts (Some ''5,10''))) = 1 \<and>
   cluster_counts (Some ''(0:0)'') = (Some [], 1, 1)"
proof -
  have n: "\<not> nonempty None" by (simp add: nonempty_def)
  have p: "\<not> starts (CHR ''('') ''5,10''" by (simp add: starts_def)
  have q: "\<not> starts (CHR '':'') (after_code_count ''5,10'')"
    by (simp add: starts_def after_code_count_def)
  have e: "Some ''5,10'' = Some ''5,10'' \<and> ''5,10'' \<noteq> []" by simp
  note t1 = cluster_counts_clamped [of "Some ''(0:3)7''"]
  note t2 = cluster_counts_clamped [of None]
  note t3 = cluster_counts_clamped [of "Some ''5,10''"]
  from t1 have a: "1 \<le> sint (fst (snd (cluster_counts (Some ''(0:3)7''))))"
    "1 \<le> sint (snd (snd (cluster_counts (Some ''(0:3)7''))))"
    "cluster_counts (Some ''(0:0)'') = (Some [], 1, 1)" by blast+
  from t2 n have b: "cluster_counts None = (None, 1, 1)" by blast
  from t3 e p q have c: "fst (snd (cluster_counts (Some ''5,10''))) = 1"
    "snd (snd (cluster_counts (Some ''5,10''))) = 1" by blast+
  from a n b p c q show ?thesis by (intro conjI)
qed

section \<open>Glyph layout: proofs\<close>


lemma cluster_counts_None: "cluster_counts None = (None, 1, 1)"
  by (simp add: cluster_counts_def Let_def word_sless_alt)

lemma glyph_token_None:
  "glyph_token lib is_sideways bidi_level char_code None =
     Inr (None, xps_encode_font_char lib char_code,
          xps_measure_font_glyph lib (xps_encode_font_char lib char_code),
          (if is_sideways then vadv (xps_measure_font_glyph lib (xps_encode_font_char lib char_code)) * 100
           else if bidi_level AND 1 \<noteq> 0
             then - hadv (xps_measure_font_glyph lib (xps_encode_font_char lib char_code)) * 100
           else hadv (xps_measure_font_glyph lib (xps_encode_font_char lib char_code)) * 100),
          0, 0)"
  by (simp add: glyph_token_def Let_def)

lemma place_glyph_pen:
  "snd (place_glyph fsize y is_sideways bidi_level char_code x (g, mtx, adv, u, v)) =
     x + adv * fsize / 100"
  by (simp add: place_glyph_def Let_def split: prod.splits)

lemma glyph_loop_step:
  "glyph_token lib is_sideways bidi_level char_code is = Inr (is', g, mtx, adv, u, v) \<Longrightarrow>
   glyph_loop lib fsize y is_sideways bidi_level char_code (Suc n) (is, x, els) =
     glyph_loop lib fsize y is_sideways bidi_level char_code n
       (is', x + adv * fsize / 100,
        els @ [fst (place_glyph fsize y is_sideways bidi_level char_code x (g, mtx, adv, u, v))])"
proof -
  assume tok: "glyph_token lib is_sideways bidi_level char_code is = Inr (is', g, mtx, adv, u, v)"
  obtain el x' where p: "place_glyph fsize y is_sideways bidi_level char_code x (g, mtx, adv, u, v) = (el, x')"
    by (cases "place_glyph fsize y is_sideways bidi_level char_code x (g, mtx, adv, u, v)")
  with place_glyph_pen [of fsize y is_sideways bidi_level char_code x g mtx adv u v]
  have "x' = x + adv * fsize / 100" by simp
  with tok p show ?thesis by simp
qed

text \<open>One turn of the outer loop on a cursor without Indices and with text left.\<close>

lemma xps_cluster_unicode_only:
  assumes "0 < un" and "xps_utf8_to_ucs lib u un = (c, t)"
  shows "xps_cluster lib fsize y False 0
           \<lparr>cur_us = Some u, cur_un = un, cur_is = None, cur_x = x, cur_text = els\<rparr> =
         Inr \<lparr>cur_us = Some (drop t u), cur_un = un - int t, cur_is = None,
              cur_x = x + hadv (xps_measure_font_glyph lib (xps_encode_font_char lib c)) * 100 * fsize / 100,
              cur_text = els @ [\<lparr>te_gid = xps_encode_font_char lib c, te_ucs = c,
                                  te_e = x, te_f = y\<rparr>]\<rparr>"
proof -
  have one: "nat (sint (1 :: cint)) = Suc 0" by simp
  show ?thesis
    using assms
    by (simp add: xps_cluster_def cluster_counts_None one glyph_token_None place_glyph_def Let_def)
qed

lemma text_loop_AB:
  assumes "xps_utf8_to_ucs lib ''AB'' 2 = (65, 1)" and "xps_utf8_to_ucs lib ''B'' 1 = (66, 1)"
  shows "text_loop lib fsize y False 0
           \<lparr>cur_us = Some ''AB'', cur_un = 2, cur_is = None, cur_x = x, cur_text = []\<rparr> =
         Some (Inr [\<lparr>te_gid = xps_encode_font_char lib 65, te_ucs = 65, te_e = x, te_f = y\<rparr>,
                    \<lparr>te_gid = xps_encode_font_char lib 66, te_ucs = 66,
                     te_e = x + hadv (xps_measure_font_glyph lib (xps_encode_font_char lib 65)) * 100 * fsize / 100,
                     te_f = y\<rparr>])"
proof -
  have c1: "xps_cluster lib fsize y False 0
           \<lparr>cur_us = Some ''AB'', cur_un = 2, cur_is = None, cur_x = x, cur_text = []\<rparr> = Inr
           \<lparr>cur_us = Some ''B'', cur_un = 1, cur_is = None,
            cur_x = x + hadv (xps_measure_font_glyph lib (xps_encode_font_char lib 65)) * 100 * fsize / 100,
            cur_text = [\<lparr>te_gid = xps_encode_font_char lib 65, te_ucs = 65, te_e = x, te_f = y\<rparr>]\<rparr>"
    using xps_cluster_unicode_only [OF _ assms(1), of fsize y x "[]"] by simp
  have c2: "xps_cluster lib fsize y False 0
           \<lparr>cur_us = Some ''B'', cur_un = 1, cur_is = None, cur_x = x', cur_text = els\<rparr> = Inr
           \<lparr>cur_us = Some [], cur_un = 0, cur_is = None,
            cur_x = x' + hadv (xps_measure_font_glyph lib (xps_encode_font_char lib 66)) * 100 * fsize / 100,
            cur_text = els @ [\<lparr>te_gid = xps_encode_font_char lib 66, te_ucs = 66, te_e = x', te_f = y\<rparr>]\<rparr>"
    for x' els
    using xps_cluster_unicode_only [OF _ assms(2), of fsize y x' els] by simp
  show ?thesis
    apply (subst text_loop.simps)
    apply (simp add: c1)
    apply (subst text_loop.simps)
    apply (simp add: c2)
    apply (subst text_loop.simps)
    apply (simp add: nonempty_def)
    done
qed


text \<open>
  C6: placing a glyph moves the pen by \<open>advance * size / 100\<close>, and the glyph loop goes
  on from there with the placed glyph appended. For the text \<open>AB\<close> without Indices,
  upright, at level 0 and size 10 from the origin (0, 0), with a decoder that reads
  \<open>A\<close> and \<open>B\<close> as one byte each and a font whose two glyphs advance by 0.5, the call
  returns and the run is exactly the two glyphs at (0, 0) and (5, 0).
\<close>

theorem layout_pen_advance:
  "snd (place_glyph fsize y is_sideways bidi_level char_code x (g, mtx, adv, u, v)) =
     x + adv * fsize / 100 \<and>
   (glyph_token lib is_sideways bidi_level char_code ind = Inr (ind', g, mtx, adv, u, v) \<longrightarrow>
      glyph_loop lib fsize y is_sideways bidi_level char_code (Suc n) (ind, x, els) =
        glyph_loop lib fsize y is_sideways bidi_level char_code n
          (ind', x + adv * fsize / 100,
           els @ [fst (place_glyph fsize y is_sideways bidi_level char_code x (g, mtx, adv, u, v))])) \<and>
   (xps_utf8_to_ucs lib ''AB'' 2 = (65, 1) \<and> xps_utf8_to_ucs lib ''B'' 1 = (66, 1) \<and>
    hadv (xps_measure_font_glyph lib (xps_encode_font_char lib 65)) = 1 / 2 \<and>
    hadv (xps_measure_font_glyph lib (xps_encode_font_char lib 66)) = 1 / 2 \<longrightarrow>
      xps_parse_glyphs_imp lib 10 0 0 False 0 None (Some ''AB'') =
        Some (Inr ([], Some \<lparr>text_trm = Fz_scale 10 (- 10), text_wmode = False,
          text_els = [\<lparr>te_gid = xps_encode_font_char lib 65, te_ucs = 65, te_e = 0, te_f = 0\<rparr>,
                      \<lparr>te_gid = xps_encode_font_char lib 66, te_ucs = 66, te_e = 5, te_f = 0\<rparr>]\<rparr>)))"
proof (intro conjI impI)
  show "snd (place_glyph fsize y is_sideways bidi_level char_code x (g, mtx, adv, u, v)) =
     x + adv * fsize / 100"
    by (rule place_glyph_pen)
next
  assume "glyph_token lib is_sideways bidi_level char_code ind = Inr (ind', g, mtx, adv, u, v)"
  then show "glyph_loop lib fsize y is_sideways bidi_level char_code (Suc n) (ind, x, els) =
        glyph_loop lib fsize y is_sideways bidi_level char_code n
          (ind', x + adv * fsize / 100,
           els @ [fst (place_glyph fsize y is_sideways bidi_level char_code x (g, mtx, adv, u, v))])"
    by (rule glyph_loop_step)
next
  assume a: "xps_utf8_to_ucs lib ''AB'' 2 = (65, 1) \<and> xps_utf8_to_ucs lib ''B'' 1 = (66, 1) \<and>
    hadv (xps_measure_font_glyph lib (xps_encode_font_char lib 65)) = 1 / 2 \<and>
    hadv (xps_measure_font_glyph lib (xps_encode_font_char lib 66)) = 1 / 2"
  then have "text_loop lib 10 0 False 0
           \<lparr>cur_us = Some ''AB'', cur_un = 2, cur_is = None, cur_x = 0, cur_text = []\<rparr> =
         Some (Inr [\<lparr>te_gid = xps_encode_font_char lib 65, te_ucs = 65, te_e = 0, te_f = 0\<rparr>,
                    \<lparr>te_gid = xps_encode_font_char lib 66, te_ucs = 66, te_e = 5, te_f = 0\<rparr>])"
    using text_loop_AB [of lib 10 0 0] by simp
  then show "xps_parse_glyphs_imp lib 10 0 0 False 0 None (Some ''AB'') =
        Some (Inr ([], Some \<lparr>text_trm = Fz_scale 10 (- 10), text_wmode = False,
          text_els = [\<lparr>te_gid = xps_encode_font_char lib 65, te_ucs = 65, te_e = 0, te_f = 0\<rparr>,
                      \<lparr>te_gid = xps_encode_font_char lib 66, te_ucs = 66, te_e = 5, te_f = 0\<rparr>]\<rparr>))"
    by (simp add: xps_parse_glyphs_imp_def skip_braces_def starts_def)
qed

lemma example_decode_AB:
  "xps_utf8_to_ucs example_lib ''AB'' 2 = (65, 1)" "xps_utf8_to_ucs example_lib ''B'' 1 = (66, 1)"
  by (simp_all add: example_lib_def utf8_decode_def ord_def)

lemma example_hadv: "hadv (xps_measure_font_glyph example_lib g) = 1 / 2"
  by (simp add: example_lib_def)

lemma example_encode: "xps_encode_font_char example_lib c = c - 29"
  by (simp add: example_lib_def)

theorem layout_pen_advance_witness:
  "xps_utf8_to_ucs example_lib ''AB'' 2 = (65, 1) \<and> xps_utf8_to_ucs example_lib ''B'' 1 = (66, 1) \<and>
   hadv (xps_measure_font_glyph example_lib (xps_encode_font_char example_lib 65)) = 1 / 2 \<and>
   hadv (xps_measure_font_glyph example_lib (xps_encode_font_char example_lib 66)) = 1 / 2 \<and>
   xps_parse_glyphs_imp example_lib 10 0 0 False 0 None (Some ''AB'') =
     Some (Inr ([], Some \<lparr>text_trm = Fz_scale 10 (- 10), text_wmode = False,
       text_els = [\<lparr>te_gid = 36, te_ucs = 65, te_e = 0, te_f = 0\<rparr>,
                   \<lparr>te_gid = 37, te_ucs = 66, te_e = 5, te_f = 0\<rparr>]\<rparr>)) \<and>
   glyph_token example_lib False 0 65 None =
     Inr (None, 36, \<lparr>hadv = 1 / 2, vadv = 1, vorg = 1 / 4\<rparr>, 50, 0, 0) \<and>
   glyph_loop example_lib 10 0 False 0 65 (Suc 0) (None, 0, []) =
     glyph_loop example_lib 10 0 False 0 65 0
       (None, 0 + 50 * 10 / 100,
        [] @ [fst (place_glyph 10 0 False 0 65 0 (36, \<lparr>hadv = 1 / 2, vadv = 1, vorg = 1 / 4\<rparr>, 50, 0, 0))])"
proof -
  have tok: "glyph_token example_lib False 0 65 None =
     Inr (None, 36, \<lparr>hadv = 1 / 2, vadv = 1, vorg = 1 / 4\<rparr>, 50, 0, 0)"
    by (simp add: glyph_token_None) (simp add: example_lib_def)
  note t = layout_pen_advance [where lib = example_lib and is_sideways = False and bidi_level = 0
      and char_code = 65 and ind = None and ind' = None and g = 36
      and mtx = "\<lparr>hadv = 1 / 2, vadv = 1, vorg = 1 / 4\<rparr>" and adv = 50 and u = 0 and v = 0
      and fsize = 10 and y = 0 and x = 0 and els = "[]" and n = 0]
  have e: "xps_parse_glyphs_imp example_lib 10 0 0 False 0 None (Some ''AB'') =
     Some (Inr ([], Some \<lparr>text_trm = Fz_scale 10 (- 10), text_wmode = False,
       text_els = [\<lparr>te_gid = 36, te_ucs = 65, te_e = 0, te_f = 0\<rparr>,
                   \<lparr>te_gid = 37, te_ucs = 66, te_e = 5, te_f = 0\<rparr>]\<rparr>))"
    using t example_decode_AB example_hadv by (simp add: example_encode)
  have s: "glyph_loop example_lib 10 0 False 0 65 (Suc 0) (None, 0, []) =
     glyph_loop example_lib 10 0 False 0 65 0
       (None, 0 + 50 * 10 / 100,
        [] @ [fst (place_glyph 10 0 False 0 65 0 (36, \<lparr>hadv = 1 / 2, vadv = 1, vorg = 1 / 4\<rparr>, 50, 0, 0))])"
    using t tok by blast
  from example_decode_AB example_hadv e tok s show ?thesis by (intro conjI)
qed

lemma skip_braces_prefix: "skip_braces (CHR ''{'' # CHR ''}'' # rest) = rest"
  by (simp add: skip_braces_def starts_def)

lemma skip_braces_other:
  "\<not> (starts (CHR ''{'') rest \<and> starts (CHR ''}'') (tl rest)) \<Longrightarrow> skip_braces rest = rest"
  by (auto simp add: skip_braces_def)

text \<open>
  C10: a Unicode string that starts with \<open>{}\<close> loses exactly these two characters, and
  the loop runs on the rest with its length as the byte count, whatever follows; when
  the rest does not start with \<open>{}\<close> again the call gives what it gives for the rest
  alone. \<open>{}\<close> alone gives a run without glyphs, and \<open>{}AB\<close> the code points 65
  and 66.
\<close>

theorem braces_prefix_skipped:
  "skip_braces (CHR ''{'' # CHR ''}'' # rest) = rest \<and>
   xps_parse_glyphs_imp lib fsize originx originy is_sideways bidi_level indices
       (Some (CHR ''{'' # CHR ''}'' # rest)) =
     (case text_loop lib fsize originy is_sideways bidi_level
             \<lparr>cur_us = Some rest, cur_un = int (length rest), cur_is = indices,
              cur_x = originx, cur_text = []\<rparr> of
        None \<Rightarrow> None
      | Some (Inl e) \<Rightarrow> Some (Inl e)
      | Some (Inr els) \<Rightarrow>
          Some (Inr ([], Some \<lparr>text_trm = (if is_sideways
                                             then Fz_concat (Fz_scale (- fsize) fsize) (Fz_rotate 90)
                                             else Fz_scale fsize (- fsize)),
                               text_wmode = is_sideways, text_els = els\<rparr>))) \<and>
   (\<not> (starts (CHR ''{'') rest \<and> starts (CHR ''}'') (tl rest)) \<longrightarrow>
      xps_parse_glyphs_imp lib fsize originx originy is_sideways bidi_level indices
          (Some (CHR ''{'' # CHR ''}'' # rest)) =
        xps_parse_glyphs_imp lib fsize originx originy is_sideways bidi_level indices (Some rest)) \<and>
   xps_parse_glyphs_imp lib fsize originx originy False bidi_level None (Some ''{}'') =
     Some (Inr ([], Some \<lparr>text_trm = Fz_scale fsize (- fsize), text_wmode = False, text_els = []\<rparr>)) \<and>
   (xps_utf8_to_ucs lib ''AB'' 2 = (65, 1) \<and> xps_utf8_to_ucs lib ''B'' 1 = (66, 1) \<longrightarrow>
      (\<exists>els. xps_parse_glyphs_imp lib fsize originx originy False 0 None (Some ''{}AB'') =
               Some (Inr ([], Some \<lparr>text_trm = Fz_scale fsize (- fsize), text_wmode = False,
                                     text_els = els\<rparr>)) \<and>
             map te_ucs els = [65, 66]))"
proof (intro conjI impI)
  show "skip_braces (CHR ''{'' # CHR ''}'' # rest) = rest" by (rule skip_braces_prefix)
next
  show "xps_parse_glyphs_imp lib fsize originx originy is_sideways bidi_level indices
       (Some (CHR ''{'' # CHR ''}'' # rest)) =
     (case text_loop lib fsize originy is_sideways bidi_level
             \<lparr>cur_us = Some rest, cur_un = int (length rest), cur_is = indices,
              cur_x = originx, cur_text = []\<rparr> of
        None \<Rightarrow> None
      | Some (Inl e) \<Rightarrow> Some (Inl e)
      | Some (Inr els) \<Rightarrow>
          Some (Inr ([], Some \<lparr>text_trm = (if is_sideways
                                             then Fz_concat (Fz_scale (- fsize) fsize) (Fz_rotate 90)
                                             else Fz_scale fsize (- fsize)),
                               text_wmode = is_sideways, text_els = els\<rparr>)))"
    by (simp add: xps_parse_glyphs_imp_def skip_braces_prefix Let_def)
next
  assume "\<not> (starts (CHR ''{'') rest \<and> starts (CHR ''}'') (tl rest))"
  then have "skip_braces rest = rest" by (rule skip_braces_other)
  then show "xps_parse_glyphs_imp lib fsize originx originy is_sideways bidi_level indices
          (Some (CHR ''{'' # CHR ''}'' # rest)) =
        xps_parse_glyphs_imp lib fsize originx originy is_sideways bidi_level indices (Some rest)"
    by (simp add: xps_parse_glyphs_imp_def skip_braces_prefix Let_def)
next
  have "text_loop lib fsize originy False bidi_level
          \<lparr>cur_us = Some [], cur_un = 0, cur_is = None, cur_x = originx, cur_text = []\<rparr> =
        Some (Inr [])"
    by (subst text_loop.simps) (simp add: nonempty_def)
  then show "xps_parse_glyphs_imp lib fsize originx originy False bidi_level None (Some ''{}'') =
     Some (Inr ([], Some \<lparr>text_trm = Fz_scale fsize (- fsize), text_wmode = False, text_els = []\<rparr>))"
    by (simp add: xps_parse_glyphs_imp_def skip_braces_prefix Let_def)
next
  assume a: "xps_utf8_to_ucs lib ''AB'' 2 = (65, 1) \<and> xps_utf8_to_ucs lib ''B'' 1 = (66, 1)"
  then have a1: "xps_utf8_to_ucs lib ''AB'' 2 = (65, 1)" and a2: "xps_utf8_to_ucs lib ''B'' 1 = (66, 1)"
    by simp_all
  from text_loop_AB [OF a1 a2, of fsize originy originx]
  show "\<exists>els. xps_parse_glyphs_imp lib fsize originx originy False 0 None (Some ''{}AB'') =
               Some (Inr ([], Some \<lparr>text_trm = Fz_scale fsize (- fsize), text_wmode = False,
                                     text_els = els\<rparr>)) \<and>
             map te_ucs els = [65, 66]"
    by (simp add: xps_parse_glyphs_imp_def skip_braces_prefix Let_def)
qed

theorem braces_prefix_skipped_witness:
  "\<not> (starts (CHR ''{'') ''AB'' \<and> starts (CHR ''}'') (tl ''AB'')) \<and>
   xps_parse_glyphs_imp example_lib 10 0 0 False 0 None (Some ''{}AB'') =
     xps_parse_glyphs_imp example_lib 10 0 0 False 0 None (Some ''AB'') \<and>
   xps_utf8_to_ucs example_lib ''AB'' 2 = (65, 1) \<and> xps_utf8_to_ucs example_lib ''B'' 1 = (66, 1) \<and>
   (\<exists>els. xps_parse_glyphs_imp example_lib 10 0 0 False 0 None (Some ''{}AB'') =
            Some (Inr ([], Some \<lparr>text_trm = Fz_scale 10 (- 10), text_wmode = False,
                                  text_els = els\<rparr>)) \<and>
          map te_ucs els = [65, 66])"
proof -
  have n: "\<not> (starts (CHR ''{'') ''AB'' \<and> starts (CHR ''}'') (tl ''AB''))"
    by (simp add: starts_def)
  note t = braces_prefix_skipped [where lib = example_lib and rest = "''AB''" and fsize = 10
      and originx = 0 and originy = 0 and is_sideways = False and bidi_level = 0 and indices = None]
  from t n have a: "xps_parse_glyphs_imp example_lib 10 0 0 False 0 None (Some ''{}AB'') =
     xps_parse_glyphs_imp example_lib 10 0 0 False 0 None (Some ''AB'')"
    by blast
  from t example_decode_AB
  have b: "\<exists>els. xps_parse_glyphs_imp example_lib 10 0 0 False 0 None (Some ''{}AB'') =
            Some (Inr ([], Some \<lparr>text_trm = Fz_scale 10 (- 10), text_wmode = False,
                                  text_els = els\<rparr>)) \<and>
          map te_ucs els = [65, 66]"
    by blast
  from n a example_decode_AB b show ?thesis by (intro conjI)
qed

























end
